theory Spec2Isabelle
  imports Complex_Main
begin

section \<open>FileLock: a lock file created exclusively, with polling and timeout\<close>

text \<open>
  The development embeds \<^verbatim>\<open>src/filelock/filelock.py\<close>. The class \<^verbatim>\<open>FileLock\<close> is a
  record, its methods are functions that take the instance and the world (file system,
  descriptor table, clock) and return the outcome together with the instance and the
  world as the call leaves them. An exception is the \<open>Inl\<close> of the outcome; the instance
  and world are returned in that case too, because the caller keeps the object. The calls
  to the module's logger have no effect on either and are left out.
\<close>

subsection \<open>The operating system as the code sees it\<close>

type_synonym path = string

text \<open>The values of \<^verbatim>\<open>errno\<close> the code names, and two that the library calls raise.\<close>

definition ENOENT :: int where "ENOENT = 2"
definition EBADF :: int where "EBADF = 9"
definition EACCES :: int where "EACCES = 13"
definition EEXIST :: int where "EEXIST = 17"

text \<open>
  \<^verbatim>\<open>FileLockException\<close> is the class declared in the module; the others are the built-in
  exceptions that the calls made by the module raise.
\<close>

datatype exn =
    OSError int
  | FileLockException string
  | TypeError
  | ValueError

datatype event =
    EvOpen path
  | EvClose int
  | EvUnlink path
  | EvSleep rat

text \<open>
  \<open>files\<close> are the paths that exist, \<open>open_err\<close> the paths at which \<^verbatim>\<open>os.open\<close> fails for a
  reason of the environment (a missing folder, a permission), each with its errno,
  \<open>fds\<close> the descriptors the process has open, \<open>now\<close> the reading of the clock in seconds,
  and \<open>trace\<close> the file-system calls and sleeps made so far, oldest first.
  Time is an exact rational: the rounding of Python's floats is not modelled.
  The clock is the wall clock: it advances over every call, by an amount that the
  environment decides. \<open>lag\<close> gives that amount in microseconds for each call, counted by
  its position in the trace; for a sleep it is the time slept beyond the length asked for.
\<close>

record world =
  files :: "path set"
  open_err :: "(path \<times> int) list"
  fds :: "int list"
  now :: rat
  lag :: "nat \<Rightarrow> nat"
  trace :: "event list"

text \<open>The time in seconds that the next call takes.\<close>

definition took :: "world \<Rightarrow> rat" where
  "took w = of_nat (lag w (length (trace w))) / 1000000"

text \<open>The lowest descriptor that is not open, as POSIX allocates it.\<close>

definition alloc_fd :: "int list \<Rightarrow> int" where
  "alloc_fd ds =
     (case find (\<lambda>n. n \<notin> set ds) (map int [0..<Suc (length ds)]) of
        Some n \<Rightarrow> n
      | None \<Rightarrow> int (length ds))"

text \<open>
  \<^verbatim>\<open>os.open(p, O_CREAT | O_RDWR | O_EXCL)\<close>: one indivisible check-and-create. It fails
  with the environment's errno where there is one, with \<open>EEXIST\<close> when the path exists, and
  otherwise creates the file and returns a new descriptor.
\<close>

definition os_open :: "world \<Rightarrow> path \<Rightarrow> (int + int) \<times> world" where
  "os_open w p =
     (let w1 = w\<lparr>now := now w + took w, trace := trace w @ [EvOpen p]\<rparr> in
      case map_of (open_err w) p of
        Some e \<Rightarrow> (Inl e, w1)
      | None \<Rightarrow>
          if p \<in> files w then (Inl EEXIST, w1)
          else (let d = alloc_fd (fds w) in
                (Inr d, w1\<lparr>files := insert p (files w), fds := d # fds w\<rparr>)))"

text \<open>\<^verbatim>\<open>os.close(fd)\<close>: \<^verbatim>\<open>TypeError\<close> for \<^verbatim>\<open>None\<close>, \<open>EBADF\<close> for a descriptor that is not open.\<close>

definition os_close :: "world \<Rightarrow> int option \<Rightarrow> (exn + unit) \<times> world" where
  "os_close w x =
     (case x of
        None \<Rightarrow> (Inl TypeError, w)
      | Some d \<Rightarrow>
          (let w1 = w\<lparr>now := now w + took w, trace := trace w @ [EvClose d]\<rparr> in
           if d \<in> set (fds w) then (Inr (), w1\<lparr>fds := removeAll d (fds w)\<rparr>)
           else (Inl (OSError EBADF), w1)))"

text \<open>\<^verbatim>\<open>os.unlink(p)\<close>: removes the path, \<open>ENOENT\<close> when there is none.\<close>

definition os_unlink :: "world \<Rightarrow> path \<Rightarrow> (exn + unit) \<times> world" where
  "os_unlink w p =
     (let w1 = w\<lparr>now := now w + took w, trace := trace w @ [EvUnlink p]\<rparr> in
      if p \<in> files w then (Inr (), w1\<lparr>files := files w - {p}\<rparr>)
      else (Inl (OSError ENOENT), w1))"

definition time_time :: "world \<Rightarrow> rat \<times> world" where
  "time_time w = (now w, w)"

text \<open>
  \<^verbatim>\<open>time.sleep(d)\<close>: \<^verbatim>\<open>ValueError\<close> for a negative length; otherwise the clock advances by
  \<open>d\<close> and by what the sleep overshoots.
\<close>

definition time_sleep :: "world \<Rightarrow> rat \<Rightarrow> (exn + unit) \<times> world" where
  "time_sleep w d =
     (if d < 0 then (Inl ValueError, w)
      else (Inr (), w\<lparr>now := now w + d + took w, trace := trace w @ [EvSleep d]\<rparr>))"

text \<open>
  \<^verbatim>\<open>os.path.join(a, b)\<close> of \<^verbatim>\<open>posixpath\<close>, for two components: an absolute \<open>b\<close> replaces
  \<open>a\<close>; no separator is added after an empty \<open>a\<close> or one that ends with the separator.
\<close>

definition path_join :: "path \<Rightarrow> path \<Rightarrow> path" where
  "path_join a b =
     (if b \<noteq> [] \<and> hd b = CHR ''/'' then b
      else if a = [] \<or> last a = CHR ''/'' then a @ b
      else a @ ''/'' @ b)"

subsection \<open>The class\<close>

record FileLock =
  lockfile :: path
  fd :: "int option"
  is_locked :: bool
  timeout_sec :: rat
  retry_delay_sec :: rat

text \<open>\<^verbatim>\<open>__init__(self, folder, filename, timeout_sec=300, retry_delay_sec=0.1)\<close>\<close>

definition init :: "path \<Rightarrow> string \<Rightarrow> rat \<Rightarrow> rat \<Rightarrow> FileLock" where
  "init folder filename timeout retry_delay =
     \<lparr>lockfile = path_join folder (filename @ ''.lock''),
      fd = None,
      is_locked = False,
      timeout_sec = timeout,
      retry_delay_sec = retry_delay\<rparr>"

definition init_default :: "path \<Rightarrow> string \<Rightarrow> FileLock" where
  "init_default folder filename = init folder filename 300 (1 / 10)"

definition timeout_message :: "path \<Rightarrow> string" where
  "timeout_message p = ''Timeout occurred for lockfile '' @ [CHR 0x27] @ p @ [CHR 0x27]"

type_synonym result = "(exn + unit) \<times> FileLock \<times> world"

text \<open>
  The \<^verbatim>\<open>while True\<close> loop of \<^verbatim>\<open>acquire\<close>. It need not end, so its value is an option and
  \<open>None\<close> is the loop that runs forever.
\<close>

partial_function (option) acquire_loop :: "rat \<Rightarrow> FileLock \<Rightarrow> world \<Rightarrow> result option" where
  "acquire_loop start_time self w =
     (case os_open w (lockfile self) of
        (Inr d, w1) \<Rightarrow> Some (Inr (), self\<lparr>fd := Some d, is_locked := True\<rparr>, w1)
      | (Inl e, w1) \<Rightarrow>
          if e \<notin> {EEXIST, EACCES} then Some (Inl (OSError e), self, w1)
          else (case time_time w1 of (t, w2) \<Rightarrow>
            if t - start_time \<ge> timeout_sec self
            then Some (Inl (FileLockException (timeout_message (lockfile self))), self, w2)
            else (case time_sleep w2 (retry_delay_sec self) of
                    (Inl x, w3) \<Rightarrow> Some (Inl x, self, w3)
                  | (Inr u, w3) \<Rightarrow> acquire_loop start_time self w3)))"

declare acquire_loop.simps [code]

definition acquire :: "FileLock \<Rightarrow> world \<Rightarrow> result option" where
  "acquire self w = (case time_time w of (start_time, w0) \<Rightarrow> acquire_loop start_time self w0)"

definition release :: "FileLock \<Rightarrow> world \<Rightarrow> result" where
  "release self w =
     (case os_close w (fd self) of
        (Inl x, w1) \<Rightarrow> (Inl x, self, w1)
      | (Inr u, w1) \<Rightarrow>
          (case os_unlink w1 (lockfile self) of
             (Inl x, w2) \<Rightarrow> (Inl x, self, w2)
           | (Inr v, w2) \<Rightarrow> (Inr (), self\<lparr>is_locked := False\<rparr>, w2)))"

text \<open>\<^verbatim>\<open>__enter__\<close> and \<^verbatim>\<open>__exit__\<close>; the instance in the result of \<open>enter\<close> is the one returned.\<close>

definition enter :: "FileLock \<Rightarrow> world \<Rightarrow> result option" where
  "enter self w = (if \<not> is_locked self then acquire self w else Some (Inr (), self, w))"

definition exit :: "FileLock \<Rightarrow> world \<Rightarrow> result" where
  "exit self w = (if is_locked self then release self w else (Inr (), self, w))"

subsection \<open>Predicates and sample states used in the statements\<close>

text \<open>
  What a finished run of the loop leaves: the environment's failures are untouched; after
  an exception the instance, the files and the descriptors are as before; after a normal
  return the lock file exists, and the instance holds a descriptor that is open.
\<close>

definition loop_post :: "FileLock \<Rightarrow> world \<Rightarrow> result \<Rightarrow> bool" where
  "loop_post self w y =
     (case y of (r, self', w') \<Rightarrow>
        open_err w' = open_err w \<and>
        (case r of
           Inl x \<Rightarrow> self' = self \<and> files w' = files w \<and> fds w' = fds w
         | Inr u \<Rightarrow>
             lockfile self \<in> files w' \<and> map_of (open_err w') (lockfile self) = None \<and>
             (\<exists>d. self' = self\<lparr>fd := Some d, is_locked := True\<rparr> \<and> d \<in> set (fds w'))))"

text \<open>The invariant of the data model, and the half of it that \<^verbatim>\<open>release\<close> keeps.\<close>

definition handle_iff_held :: "FileLock \<Rightarrow> bool" where
  "handle_iff_held self = ((fd self \<noteq> None) = is_locked self)"

definition held_has_handle :: "FileLock \<Rightarrow> bool" where
  "held_has_handle self = (is_locked self \<longrightarrow> fd self \<noteq> None)"

text \<open>
  A process with the three standard descriptors open and an empty lock folder; the lock
  \<^verbatim>\<open>FileLock("/tmp/locks", "job-42", 1, 0.5)\<close>; and both after \<^verbatim>\<open>acquire()\<close>.
\<close>

definition ex_world :: world where
  "ex_world =
     \<lparr>files = {}, open_err = [], fds = [0, 1, 2], now = 0, lag = (\<lambda>i. 0), trace = []\<rparr>"

definition ex_lock :: FileLock where
  "ex_lock = init ''/tmp/locks'' ''job-42'' 1 (1 / 2)"

definition held_lock :: FileLock where
  "held_lock = ex_lock\<lparr>fd := Some 3, is_locked := True\<rparr>"

definition held_world :: world where
  "held_world =
     \<lparr>files = {''/tmp/locks/job-42.lock''}, open_err = [], fds = [3, 0, 1, 2], now = 0,
      lag = (\<lambda>i. 0), trace = [EvOpen ''/tmp/locks/job-42.lock'']\<rparr>"

text \<open>A world in which the lock folder does not exist.\<close>

definition nofolder_world :: world where
  "nofolder_world =
     \<lparr>files = {}, open_err = [(''/tmp/locks/job-42.lock'', ENOENT)], fds = [0, 1, 2], now = 0,
      lag = (\<lambda>i. 0), trace = []\<rparr>"

text \<open>
  Two more worlds: one in which another process holds the lock (the lock file exists and
  this process has no descriptor for it), one in which the lock folder refuses access.
\<close>

definition busy_world :: world where
  "busy_world =
     \<lparr>files = {''/tmp/locks/job-42.lock''}, open_err = [], fds = [0, 1, 2], now = 0,
      lag = (\<lambda>i. 0), trace = []\<rparr>"


text \<open>
  The world in which another process holds the lock and every call takes 0.3 seconds, and
  the lock with a negative retry delay, \<^verbatim>\<open>FileLock("/tmp/locks", "job-42", 1, -1)\<close>.
\<close>

definition slow_world :: world where
  "slow_world = busy_world\<lparr>lag := (\<lambda>i. 300000)\<rparr>"

definition neg_lock :: FileLock where
  "neg_lock = init ''/tmp/locks'' ''job-42'' 1 (- 1)"

text \<open>
  The time from the entry of \<^verbatim>\<open>acquire\<close> in world \<open>w\<close> to the reading of the clock after the
  attempt that follows \<open>k\<close> sleeps of length \<open>d\<close>: the \<open>k\<close> sleeps, and what the \<open>k + 1\<close>
  attempts and the \<open>k\<close> sleeps take beyond that.
\<close>

definition elapsed_at :: "world \<Rightarrow> rat \<Rightarrow> nat \<Rightarrow> rat" where
  "elapsed_at w d k =
     of_nat k * d + (\<Sum>j<2 * k + 1. of_nat (lag w (length (trace w) + j))) / 1000000"



section \<open>Properties\<close>

subsection \<open>What the library calls and the loop leave behind\<close>

lemma os_open_Inl:
  "os_open w p = (Inl e, w1) \<Longrightarrow>
     w1 = w\<lparr>now := now w + took w, trace := trace w @ [EvOpen p]\<rparr>"
  by (auto simp: os_open_def Let_def split: option.splits if_splits)

lemma os_open_Inr:
  "os_open w p = (Inr d, w1) \<Longrightarrow>
     map_of (open_err w) p = None \<and> p \<notin> files w \<and> d = alloc_fd (fds w) \<and>
     w1 = w\<lparr>now := now w + took w, trace := trace w @ [EvOpen p],
           files := insert p (files w), fds := d # fds w\<rparr>"
  by (auto simp: os_open_def Let_def split: option.splits if_splits)

lemma time_sleep_Inl: "time_sleep w d = (Inl x, w1) \<Longrightarrow> w1 = w \<and> x = ValueError \<and> d < 0"
  by (auto simp: time_sleep_def split: if_splits)

lemma time_sleep_Inr:
  "time_sleep w d = (Inr u, w1) \<Longrightarrow>
     0 \<le> d \<and> w1 = w\<lparr>now := now w + d + took w, trace := trace w @ [EvSleep d]\<rparr>"
  by (auto simp: time_sleep_def split: if_splits)

lemma loop_post_sleep:
  "loop_post self (w\<lparr>trace := tr, now := t\<rparr>) y \<Longrightarrow> loop_post self w y"
  by (auto simp: loop_post_def split: prod.splits sum.splits)

lemma acquire_loop_post:
  assumes "acquire_loop st self w = Some y"
  shows "loop_post self w y"
  using assms
proof (rule acquire_loop.raw_induct[where P = "\<lambda>st self w y. loop_post self w y", rotated 1])
  fix loop :: "rat \<Rightarrow> FileLock \<Rightarrow> world \<Rightarrow> result option" and st self w y
  assume IH: "\<And>st self w y. loop st self w = Some y \<Longrightarrow> loop_post self w y"
  assume body: "(case os_open w (lockfile self) of
        (Inl e, w1) \<Rightarrow>
          if e \<notin> {EEXIST, EACCES} then Some (Inl (OSError e), self, w1)
          else (case time_time w1 of (t, w2) \<Rightarrow>
            if t - st \<ge> timeout_sec self
            then Some (Inl (FileLockException (timeout_message (lockfile self))), self, w2)
            else (case time_sleep w2 (retry_delay_sec self) of
                    (Inl x, w3) \<Rightarrow> Some (Inl x, self, w3)
                  | (Inr u, w3) \<Rightarrow> loop st self w3))
      | (Inr d, w1) \<Rightarrow> Some (Inr (), self\<lparr>fd := Some d, is_locked := True\<rparr>, w1)) = Some y"
  show "loop_post self w y"
  proof (cases "os_open w (lockfile self)")
    case (Pair a w1)
    show ?thesis
    proof (cases a)
      case (Inr d)
      with Pair body os_open_Inr[of w "lockfile self" d w1] show ?thesis
        by (auto simp: loop_post_def)
    next
      case (Inl e)
      note w1 = os_open_Inl[OF Pair[unfolded Inl]]
      show ?thesis
      proof (cases "e \<notin> {EEXIST, EACCES}")
        case True
        with Pair Inl body w1 show ?thesis by (auto simp: loop_post_def)
      next
        case False
        show ?thesis
        proof (cases "timeout_sec self \<le> now w1 - st")
          case True
          with Pair Inl body w1 False show ?thesis by (auto simp: time_time_def loop_post_def)
        next
          case late: False
          obtain b w3 where sl: "time_sleep w1 (retry_delay_sec self) = (b, w3)"
            by (cases "time_sleep w1 (retry_delay_sec self)") auto
          show ?thesis
          proof (cases b)
            case (Inl x)
            with sl Pair \<open>a = Inl e\<close> body w1 False late
              time_sleep_Inl[of w1 "retry_delay_sec self" x w3]
            show ?thesis by (auto simp: time_time_def loop_post_def)
          next
            case (Inr u)
            with sl Pair \<open>a = Inl e\<close> body False late
            have rec: "loop st self w3 = Some y" by (auto simp: time_time_def)
            from time_sleep_Inr[OF sl[unfolded Inr]] w1
            have "w3 = w\<lparr>trace := trace w @ [EvOpen (lockfile self), EvSleep (retry_delay_sec self)],
                         now := now w3\<rparr>" by auto
            with IH[OF rec] show ?thesis by (metis loop_post_sleep)
          qed
        qed
      qed
    qed
  qed
qed

lemma acquire_post: "acquire self w = Some y \<Longrightarrow> loop_post self w y"
  unfolding acquire_def time_time_def by (simp add: acquire_loop_post)

lemma acquire_returns:
  assumes "acquire self w = Some (Inr u, self', w')"
  shows "lockfile self \<in> files w'" "map_of (open_err w') (lockfile self) = None"
    "\<exists>d. self' = self\<lparr>fd := Some d, is_locked := True\<rparr> \<and> d \<in> set (fds w')"
  using acquire_post[OF assms] by (auto simp: loop_post_def)

lemma release_instance:
  "fst (snd (release self w)) = self \<or> fst (snd (release self w)) = self\<lparr>is_locked := False\<rparr>"
  by (simp add: release_def split: prod.splits sum.splits)

lemma release_held:
  assumes "fd self = Some d" "d \<in> set (fds w)" "lockfile self \<in> files w"
  shows "release self w =
           (Inr (), self\<lparr>is_locked := False\<rparr>,
            w\<lparr>now := now w + took w + of_nat (lag w (Suc (length (trace w)))) / 1000000,
              trace := trace w @ [EvClose d, EvUnlink (lockfile self)],
              fds := removeAll d (fds w), files := files w - {lockfile self}\<rparr>)"
  using assms by (simp add: release_def os_close_def os_unlink_def Let_def took_def)

lemma acquire_free:
  assumes "map_of (open_err w) (lockfile self) = None" "lockfile self \<notin> files w"
  shows "acquire self w =
           Some (Inr (), self\<lparr>fd := Some (alloc_fd (fds w)), is_locked := True\<rparr>,
                 w\<lparr>now := now w + took w, trace := trace w @ [EvOpen (lockfile self)],
                   files := insert (lockfile self) (files w),
                   fds := alloc_fd (fds w) # fds w\<rparr>)"
proof -
  have "acquire self w = acquire_loop (now w) self w"
    by (simp add: acquire_def time_time_def)
  also have "\<dots> = Some (Inr (), self\<lparr>fd := Some (alloc_fd (fds w)), is_locked := True\<rparr>,
                 w\<lparr>now := now w + took w, trace := trace w @ [EvOpen (lockfile self)],
                   files := insert (lockfile self) (files w),
                   fds := alloc_fd (fds w) # fds w\<rparr>)"
    by (subst acquire_loop.simps) (simp add: os_open_def Let_def assms)
  finally show ?thesis .
qed

lemma alloc_fd_std: "alloc_fd [0, 1, 2] = 3"
  by code_simp

lemma acquire_ex: "acquire ex_lock ex_world = Some (Inr (), held_lock, held_world)"
proof -
  have "map_of (open_err ex_world) (lockfile ex_lock) = None" "lockfile ex_lock \<notin> files ex_world"
    by (simp_all add: ex_world_def)
  from acquire_free[OF this] show ?thesis
    by (simp add: ex_world_def ex_lock_def held_lock_def held_world_def init_def path_join_def
        alloc_fd_std took_def)
qed

lemma release_after_acquire:
  assumes "acquire self w = Some (Inr u, self', w')"
  shows "\<exists>d. fd self' = Some d \<and>
           release self' w' =
             (Inr (), self'\<lparr>is_locked := False\<rparr>,
              w'\<lparr>now := now w' + took w' + of_nat (lag w' (Suc (length (trace w')))) / 1000000,
                 trace := trace w' @ [EvClose d, EvUnlink (lockfile self)],
                 fds := removeAll d (fds w'), files := files w' - {lockfile self}\<rparr>)"
proof -
  from acquire_returns[OF assms] obtain d where
    d: "self' = self\<lparr>fd := Some d, is_locked := True\<rparr>" "d \<in> set (fds w')"
    and f: "lockfile self \<in> files w'" by auto
  from d f have "fd self' = Some d" "lockfile self' \<in> files w'" "lockfile self' = lockfile self"
    by simp_all
  with release_held[of self' d w'] d(2) show ?thesis by simp
qed

lemma os_open_fails_same:
  assumes "files w' = files w" "open_err w' = open_err w"
  shows "(fst (os_open w' p) = Inl e) = (fst (os_open w p) = Inl e)"
  using assms by (simp add: os_open_def Let_def split: option.splits)

lemma acquire_loop_fail:
  assumes "fst (os_open w (lockfile self)) = Inl e"
  shows "acquire_loop st self w =
     (if e \<notin> {EEXIST, EACCES}
      then Some (Inl (OSError e), self,
                 w\<lparr>now := now w + took w, trace := trace w @ [EvOpen (lockfile self)]\<rparr>)
      else if timeout_sec self \<le> now w + took w - st
      then Some (Inl (FileLockException (timeout_message (lockfile self))), self,
                 w\<lparr>now := now w + took w, trace := trace w @ [EvOpen (lockfile self)]\<rparr>)
      else if retry_delay_sec self < 0
      then Some (Inl ValueError, self,
                 w\<lparr>now := now w + took w, trace := trace w @ [EvOpen (lockfile self)]\<rparr>)
      else acquire_loop st self
             (w\<lparr>now := now w + took w + retry_delay_sec self +
                         of_nat (lag w (Suc (length (trace w)))) / 1000000,
                trace := trace w @ [EvOpen (lockfile self), EvSleep (retry_delay_sec self)]\<rparr>))"
proof -
  obtain a w1 where o: "os_open w (lockfile self) = (a, w1)"
    by (cases "os_open w (lockfile self)") auto
  with assms have a: "a = Inl e" by simp
  from os_open_Inl[OF o[unfolded a]]
  have w1: "w1 = w\<lparr>now := now w + took w, trace := trace w @ [EvOpen (lockfile self)]\<rparr>" .
  have t1: "took w1 = of_nat (lag w (Suc (length (trace w)))) / 1000000"
    by (simp add: w1 took_def)
  show ?thesis
    by (subst acquire_loop.simps) (simp add: o a time_time_def time_sleep_def t1, simp add: w1)
qed

subsection \<open>The retry loop under contention\<close>

lemma elapsed_at_0: "elapsed_at w d 0 = took w"
  by (simp add: elapsed_at_def took_def)

lemma elapsed_at_Suc:
  assumes "lag w' = lag w" "length (trace w') = length (trace w) + 2"
  shows "elapsed_at w d (Suc k) =
           took w + d + of_nat (lag w (Suc (length (trace w)))) / 1000000 + elapsed_at w' d k"
proof -
  have "(\<Sum>j<2 * Suc k + 1. (of_nat (lag w (length (trace w) + j)) :: rat)) =
          of_nat (lag w (length (trace w))) + of_nat (lag w (Suc (length (trace w)))) +
          (\<Sum>j<2 * k + 1. of_nat (lag w (length (trace w) + 2 + j)))"
    by (simp add: sum.lessThan_Suc_shift del: sum.lessThan_Suc)
  then show ?thesis
    by (simp add: elapsed_at_def took_def assms field_simps)
qed

lemma elapsed_at_lower: "of_nat k * d \<le> elapsed_at w d k"
proof -
  have "0 \<le> (\<Sum>j<2 * k + 1. (of_nat (lag w (length (trace w) + j)) :: rat))"
    by (rule sum_nonneg) simp
  then show ?thesis by (simp add: elapsed_at_def)
qed

lemma acquire_loop_contended:
  assumes "e \<in> {EEXIST, EACCES}" "0 \<le> retry_delay_sec self"
  shows "fst (os_open w (lockfile self)) = Inl e \<Longrightarrow>
         \<forall>k<n. now w + elapsed_at w (retry_delay_sec self) k - st < timeout_sec self \<Longrightarrow>
         timeout_sec self \<le> now w + elapsed_at w (retry_delay_sec self) n - st \<Longrightarrow>
         acquire_loop st self w =
           Some (Inl (FileLockException (timeout_message (lockfile self))), self,
                 w\<lparr>now := now w + elapsed_at w (retry_delay_sec self) n,
                   trace := trace w @
                     concat (replicate n [EvOpen (lockfile self), EvSleep (retry_delay_sec self)]) @
                     [EvOpen (lockfile self)]\<rparr>)"
proof (induction n arbitrary: w)
  case 0
  then show ?case using assms by (simp add: acquire_loop_fail elapsed_at_0)
next
  case (Suc n)
  let ?d = "retry_delay_sec self" and ?p = "lockfile self"
  let ?w = "w\<lparr>now := now w + took w + ?d + of_nat (lag w (Suc (length (trace w)))) / 1000000,
              trace := trace w @ [EvOpen ?p, EvSleep ?d]\<rparr>"
  have sh: "elapsed_at w ?d (Suc k) =
              took w + ?d + of_nat (lag w (Suc (length (trace w)))) / 1000000 + elapsed_at ?w ?d k"
    for k by (rule elapsed_at_Suc) simp_all
  from Suc.prems(2) have "now w + elapsed_at w ?d 0 - st < timeout_sec self" by blast
  then have early: "\<not> timeout_sec self \<le> now w + took w - st" by (simp add: elapsed_at_0)
  have step: "acquire_loop st self w = acquire_loop st self ?w"
    using Suc.prems(1) assms early by (simp add: acquire_loop_fail)
  have f: "fst (os_open ?w ?p) = Inl e"
    using Suc.prems(1) os_open_fails_same[of ?w w ?p e] by simp
  have b: "\<forall>k<n. now ?w + elapsed_at ?w ?d k - st < timeout_sec self"
  proof (intro allI impI)
    fix k assume "k < n"
    then have "Suc k < Suc n" by simp
    with Suc.prems(2) have "now w + elapsed_at w ?d (Suc k) - st < timeout_sec self" by blast
    then show "now ?w + elapsed_at ?w ?d k - st < timeout_sec self" by (simp add: sh)
  qed
  have c: "timeout_sec self \<le> now ?w + elapsed_at ?w ?d n - st"
    using Suc.prems(3) by (simp add: sh)
  have "acquire_loop st self ?w =
           Some (Inl (FileLockException (timeout_message ?p)), self,
                 ?w\<lparr>now := now ?w + elapsed_at ?w ?d n,
                   trace := trace ?w @ concat (replicate n [EvOpen ?p, EvSleep ?d]) @ [EvOpen ?p]\<rparr>)"
    by (rule Suc.IH[OF f b c])
  with step show ?case by (simp add: sh)
qed

lemma acquire_contended:
  assumes "fst (os_open w (lockfile self)) = Inl e" "e \<in> {EEXIST, EACCES}"
    "0 \<le> retry_delay_sec self"
    "\<forall>k<n. elapsed_at w (retry_delay_sec self) k < timeout_sec self"
    "timeout_sec self \<le> elapsed_at w (retry_delay_sec self) n"
  shows "acquire self w =
           Some (Inl (FileLockException (timeout_message (lockfile self))), self,
                 w\<lparr>now := now w + elapsed_at w (retry_delay_sec self) n,
                   trace := trace w @
                     concat (replicate n [EvOpen (lockfile self), EvSleep (retry_delay_sec self)]) @
                     [EvOpen (lockfile self)]\<rparr>)"
proof -
  have "acquire self w = acquire_loop (now w) self w" by (simp add: acquire_def time_time_def)
  with acquire_loop_contended[OF assms(2,3,1), of n "now w"] assms(4,5)
  show ?thesis by simp
qed

lemma timeout_reached:
  fixes d T :: rat
  assumes "0 < d"
  shows "\<exists>n. (\<forall>k<n. elapsed_at w d k < T) \<and> T \<le> elapsed_at w d n"
proof -
  obtain m :: nat where "T / d \<le> of_nat m" using real_arch_simple by blast
  with assms have "T \<le> of_nat m * d" by (simp add: field_simps)
  with elapsed_at_lower[of m d w] have m: "T \<le> elapsed_at w d m" by simp
  define n where "n = (LEAST n. T \<le> elapsed_at w d n)"
  have "T \<le> elapsed_at w d n" unfolding n_def using m by (rule LeastI)
  moreover have "elapsed_at w d k < T" if "k < n" for k
    using not_less_Least[of k "\<lambda>n. T \<le> elapsed_at w d n"] that by (simp add: n_def)
  ultimately show ?thesis by blast
qed



subsection \<open>Runs of the sample states\<close>

lemma acquire_nofolder:
  "acquire ex_lock nofolder_world =
     Some (Inl (OSError ENOENT), ex_lock,
           nofolder_world\<lparr>trace := [EvOpen ''/tmp/locks/job-42.lock'']\<rparr>)"
proof -
  have f: "fst (os_open nofolder_world (lockfile ex_lock)) = Inl ENOENT"
    by (simp add: os_open_def nofolder_world_def ex_lock_def init_def path_join_def)
  have "acquire ex_lock nofolder_world = acquire_loop 0 ex_lock nofolder_world"
    by (simp add: acquire_def time_time_def nofolder_world_def)
  also have "\<dots> = Some (Inl (OSError ENOENT), ex_lock,
           nofolder_world\<lparr>trace := [EvOpen ''/tmp/locks/job-42.lock'']\<rparr>)"
    by (simp add: acquire_loop_fail[OF f] ENOENT_def EEXIST_def EACCES_def)
      (simp add: nofolder_world_def ex_lock_def init_def path_join_def took_def)
  finally show ?thesis .
qed

lemma elapsed_at_no_lag: "lag w = (\<lambda>i. 0) \<Longrightarrow> elapsed_at w d k = of_nat k * d"
  by (simp add: elapsed_at_def)

lemma acquire_held_again:
  "acquire held_lock held_world =
     Some (Inl (FileLockException (timeout_message ''/tmp/locks/job-42.lock'')), held_lock,
           held_world\<lparr>now := 1,
             trace := [EvOpen ''/tmp/locks/job-42.lock'',
                       EvOpen ''/tmp/locks/job-42.lock'', EvSleep (1 / 2),
                       EvOpen ''/tmp/locks/job-42.lock'', EvSleep (1 / 2),
                       EvOpen ''/tmp/locks/job-42.lock'']\<rparr>)"
proof -
  have l: "lockfile held_lock = ''/tmp/locks/job-42.lock''" "retry_delay_sec held_lock = 1 / 2"
    "timeout_sec held_lock = 1"
    by (simp_all add: held_lock_def ex_lock_def init_def path_join_def)
  have z: "lag held_world = (\<lambda>i. 0)" by (simp add: held_world_def)
  have f: "fst (os_open held_world (lockfile held_lock)) = Inl EEXIST"
    by (simp add: os_open_def l held_world_def)
  have e: "EEXIST \<in> {EEXIST, EACCES}" by simp
  have d: "0 \<le> retry_delay_sec held_lock" by (simp add: l)
  have b: "\<forall>k<2. elapsed_at held_world (retry_delay_sec held_lock) k < timeout_sec held_lock"
    by (simp add: elapsed_at_no_lag[OF z] l less_Suc_eq numeral_2_eq_2)
  have t: "timeout_sec held_lock \<le> elapsed_at held_world (retry_delay_sec held_lock) 2"
    by (simp add: elapsed_at_no_lag[OF z] l)
  from acquire_contended[OF f e d b t] show ?thesis
    by (simp add: elapsed_at_no_lag[OF z] l numeral_2_eq_2) (simp add: held_world_def)
qed

subsection \<open>An acquire that raises changes nothing in the instance\<close>

text \<open>
  Claim C10. Whenever \<^verbatim>\<open>acquire()\<close> ends by raising, the instance is exactly what it was
  before the call, its handle and its held flag included. The handle is assigned and the
  flag set only when the exclusive creation succeeded: then the lock file exists and the
  stored descriptor is open.
\<close>

theorem acquire_raise_keeps_instance:
  assumes "acquire self w = Some (r, self', w')"
  shows "case r of
           Inl x \<Rightarrow> self' = self
         | Inr u \<Rightarrow> lockfile self \<in> files w' \<and>
             (\<exists>d. self' = self\<lparr>fd := Some d, is_locked := True\<rparr> \<and> d \<in> set (fds w'))"
  using acquire_post[OF assms] by (simp add: loop_post_def split: sum.splits)

theorem acquire_raise_keeps_instance_witness:
  "acquire ex_lock nofolder_world =
     Some (Inl (OSError ENOENT), ex_lock,
           nofolder_world\<lparr>trace := [EvOpen ''/tmp/locks/job-42.lock'']\<rparr>)
   \<and> (case (Inl (OSError ENOENT) :: exn + unit) of
         Inl x \<Rightarrow> ex_lock = ex_lock
       | Inr u \<Rightarrow> lockfile ex_lock \<in> files (nofolder_world\<lparr>trace := [EvOpen ''/tmp/locks/job-42.lock'']\<rparr>) \<and>
           (\<exists>d. ex_lock = ex_lock\<lparr>fd := Some d, is_locked := True\<rparr> \<and>
                d \<in> set (fds (nofolder_world\<lparr>trace := [EvOpen ''/tmp/locks/job-42.lock'']\<rparr>))))"
proof -
  note run = acquire_nofolder
  from acquire_raise_keeps_instance[OF run] run show ?thesis by simp
qed

subsection \<open>Construction\<close>

text \<open>
  Claim C6, at an input where it fails: with an empty folder the stored path is the relative
  \<^verbatim>\<open>job.lock\<close>, not \<^verbatim>\<open>/job.lock\<close> as the pattern folder, slash, name, suffix gives.
\<close>

theorem init_path_counterexample:
  "lockfile (init [] ''job'' 300 (1 / 10)) = ''job.lock'' \<and>
   ''job.lock'' \<noteq> [] @ ''/'' @ ''job'' @ ''.lock''"
  by (simp add: init_def path_join_def)

text \<open>
  Claim C6, amended. Construction is a total function of its four arguments and touches no
  world: it stores a null handle, a false held flag, the two durations and the path
  \<^verbatim>\<open>os.path.join(folder, name + ".lock")\<close>. That path is folder, slash, name, suffix when the
  folder is not empty and does not end with a slash and the name does not start with one;
  it is folder, name, suffix with no separator added when the folder is empty or ends with
  a slash and the name does not start with one; and it is name, suffix alone, the folder
  dropped, when the name starts with a slash.
\<close>

theorem init_pure:
  "fd (init folder filename timeout retry_delay) = None
   \<and> \<not> is_locked (init folder filename timeout retry_delay)
   \<and> timeout_sec (init folder filename timeout retry_delay) = timeout
   \<and> retry_delay_sec (init folder filename timeout retry_delay) = retry_delay
   \<and> (folder \<noteq> [] \<and> last folder \<noteq> CHR ''/'' \<and> \<not> (filename \<noteq> [] \<and> hd filename = CHR ''/'') \<longrightarrow>
        lockfile (init folder filename timeout retry_delay) = folder @ ''/'' @ filename @ ''.lock'')
   \<and> ((folder = [] \<or> last folder = CHR ''/'') \<and> \<not> (filename \<noteq> [] \<and> hd filename = CHR ''/'') \<longrightarrow>
        lockfile (init folder filename timeout retry_delay) = folder @ filename @ ''.lock'')
   \<and> (filename \<noteq> [] \<and> hd filename = CHR ''/'' \<longrightarrow>
        lockfile (init folder filename timeout retry_delay) = filename @ ''.lock'')"
  by (cases filename) (auto simp: init_def path_join_def)

theorem init_pure_witness:
  "(''/tmp/locks'' \<noteq> [] \<and> last ''/tmp/locks'' \<noteq> CHR ''/'' \<and> \<not> (''job-42'' \<noteq> [] \<and> hd ''job-42'' = CHR ''/''))
   \<and> lockfile (init ''/tmp/locks'' ''job-42'' 300 (1 / 10)) = ''/tmp/locks/job-42.lock''
   \<and> fd (init ''/tmp/locks'' ''job-42'' 300 (1 / 10)) = None
   \<and> \<not> is_locked (init ''/tmp/locks'' ''job-42'' 300 (1 / 10))
   \<and> last ''/tmp/'' = CHR ''/''
   \<and> lockfile (init ''/tmp/'' ''job-42'' 300 (1 / 10)) = ''/tmp/job-42.lock''
   \<and> lockfile (init [] ''job-42'' 300 (1 / 10)) = ''job-42.lock''
   \<and> hd ''/etc/x'' = CHR ''/''
   \<and> lockfile (init ''/tmp/locks'' ''/etc/x'' 300 (1 / 10)) = ''/etc/x.lock''"
proof -
  have a: "lockfile (init ''/tmp/locks'' ''job-42'' 300 (1 / 10)) = ''/tmp/locks/job-42.lock''"
    "fd (init ''/tmp/locks'' ''job-42'' 300 (1 / 10)) = None"
    "\<not> is_locked (init ''/tmp/locks'' ''job-42'' 300 (1 / 10))"
    using init_pure[of "''/tmp/locks''" "''job-42''" 300 "1 / 10"] by simp_all
  have b: "lockfile (init ''/tmp/'' ''job-42'' 300 (1 / 10)) = ''/tmp/job-42.lock''"
    using init_pure[of "''/tmp/''" "''job-42''" 300 "1 / 10"] by simp
  have c: "lockfile (init [] ''job-42'' 300 (1 / 10)) = ''job-42.lock''"
    using init_pure[of "[]" "''job-42''" 300 "1 / 10"] by simp
  have d: "lockfile (init ''/tmp/locks'' ''/etc/x'' 300 (1 / 10)) = ''/etc/x.lock''"
    using init_pure[of "''/tmp/locks''" "''/etc/x''" 300 "1 / 10"] by simp
  from a b c d show ?thesis by simp
qed

subsection \<open>Release on an instance that does not hold the lock\<close>

text \<open>
  Claim C2, at an input where it fails: \<^verbatim>\<open>release()\<close> on a new instance raises
  \<^verbatim>\<open>TypeError\<close>, from closing the null handle.
\<close>

theorem release_not_held_counterexample:
  "\<not> is_locked ex_lock \<and> release ex_lock ex_world = (Inl TypeError, ex_lock, ex_world)"
  by (simp add: release_def os_close_def ex_lock_def init_def)

text \<open>
  Claim C2, amended. \<^verbatim>\<open>release()\<close> on an instance whose held flag is false leaves the instance
  as it was, whatever the outcome. It does not test the flag: with a null handle it raises
  \<^verbatim>\<open>TypeError\<close> before any file-system call, and with the descriptor of an earlier hold
  that is no longer open it raises \<^verbatim>\<open>OSError\<close> with \<open>EBADF\<close>. The call that does nothing and
  does not raise when the lock is not held is the scope exit.
\<close>

theorem release_not_held:
  assumes "\<not> is_locked self"
  shows "fst (snd (release self w)) = self
       \<and> (fd self = None \<longrightarrow> release self w = (Inl TypeError, self, w))
       \<and> (\<forall>d. fd self = Some d \<and> d \<notin> set (fds w) \<longrightarrow>
             release self w =
               (Inl (OSError EBADF), self,
                w\<lparr>now := now w + took w, trace := trace w @ [EvClose d]\<rparr>))
       \<and> exit self w = (Inr (), self, w)"
  using assms release_instance[of self w]
  by (auto simp: exit_def release_def os_close_def Let_def)

theorem release_not_held_witness:
  "\<not> is_locked ex_lock \<and> fd ex_lock = None
   \<and> fst (snd (release ex_lock ex_world)) = ex_lock
   \<and> release ex_lock ex_world = (Inl TypeError, ex_lock, ex_world)
   \<and> exit ex_lock ex_world = (Inr (), ex_lock, ex_world)
   \<and> \<not> is_locked (held_lock\<lparr>is_locked := False\<rparr>)
   \<and> fd (held_lock\<lparr>is_locked := False\<rparr>) = Some 3 \<and> 3 \<notin> set (fds ex_world)
   \<and> release (held_lock\<lparr>is_locked := False\<rparr>) ex_world =
       (Inl (OSError EBADF), held_lock\<lparr>is_locked := False\<rparr>,
        ex_world\<lparr>now := now ex_world + took ex_world, trace := trace ex_world @ [EvClose 3]\<rparr>)"
proof -
  have h: "\<not> is_locked ex_lock" by (simp add: ex_lock_def init_def)
  have n: "fd ex_lock = None" by (simp add: ex_lock_def init_def)
  have h': "\<not> is_locked (held_lock\<lparr>is_locked := False\<rparr>)" by simp
  have s: "fd (held_lock\<lparr>is_locked := False\<rparr>) = Some 3" "3 \<notin> set (fds ex_world)"
    by (simp_all add: held_lock_def ex_world_def)
  from release_not_held[OF h', of ex_world] s
  have "release (held_lock\<lparr>is_locked := False\<rparr>) ex_world =
       (Inl (OSError EBADF), held_lock\<lparr>is_locked := False\<rparr>,
        ex_world\<lparr>now := now ex_world + took ex_world, trace := trace ex_world @ [EvClose 3]\<rparr>)"
    by blast
  with release_not_held[OF h, of ex_world] h n h' s show ?thesis by simp
qed

subsection \<open>The handle and the held flag\<close>

text \<open>
  Claim C3, at an input where it fails: the instance that holds the lock satisfies the
  invariant, and \<^verbatim>\<open>release()\<close> returns normally and leaves the flag false with the closed
  descriptor still stored.
\<close>

theorem handle_iff_held_counterexample:
  "handle_iff_held held_lock
   \<and> release held_lock held_world =
       (Inr (), held_lock\<lparr>is_locked := False\<rparr>,
        held_world\<lparr>files := {}, fds := [0, 1, 2],
          trace := [EvOpen ''/tmp/locks/job-42.lock'', EvClose 3, EvUnlink ''/tmp/locks/job-42.lock'']\<rparr>)
   \<and> \<not> handle_iff_held (held_lock\<lparr>is_locked := False\<rparr>)"
  by (simp add: handle_iff_held_def held_lock_def held_world_def ex_lock_def init_def path_join_def
      release_def os_close_def os_unlink_def took_def)

lemma acquire_held_has_handle:
  "acquire self w = Some (r, self', w') \<Longrightarrow> held_has_handle self \<Longrightarrow> held_has_handle self'"
  using acquire_post[of self w "(r, self', w')"]
  by (auto simp: loop_post_def held_has_handle_def split: sum.splits)

lemma acquire_handle_iff_held:
  "acquire self w = Some (r, self', w') \<Longrightarrow> handle_iff_held self \<Longrightarrow> handle_iff_held self'"
  using acquire_post[of self w "(r, self', w')"]
  by (auto simp: loop_post_def handle_iff_held_def split: sum.splits)

lemma release_held_has_handle:
  "held_has_handle self \<Longrightarrow> held_has_handle (fst (snd (release self w)))"
  using release_instance[of self w] by (auto simp: held_has_handle_def)

text \<open>
  Claim C3, amended. A new instance has a null handle and a false flag. From any state in
  which a true flag implies a non-null handle, that implication holds again after
  \<^verbatim>\<open>acquire\<close>, \<^verbatim>\<open>release\<close>, scope entry and scope exit, whatever their outcome. The equivalence
  of the two is kept by \<^verbatim>\<open>acquire\<close> and by scope entry.
\<close>

theorem held_has_handle_invariant:
  "handle_iff_held (init folder filename timeout retry_delay)
   \<and> held_has_handle (init folder filename timeout retry_delay)
   \<and> (held_has_handle self \<longrightarrow>
        (\<forall>r self' w'. acquire self w = Some (r, self', w') \<longrightarrow> held_has_handle self')
      \<and> (\<forall>r self' w'. enter self w = Some (r, self', w') \<longrightarrow> held_has_handle self')
      \<and> held_has_handle (fst (snd (release self w)))
      \<and> held_has_handle (fst (snd (exit self w))))
   \<and> (handle_iff_held self \<longrightarrow>
        (\<forall>r self' w'. acquire self w = Some (r, self', w') \<longrightarrow> handle_iff_held self')
      \<and> (\<forall>r self' w'. enter self w = Some (r, self', w') \<longrightarrow> handle_iff_held self'))"
proof -
  have a: "handle_iff_held (init folder filename timeout retry_delay)"
    by (simp add: handle_iff_held_def init_def)
  have b: "held_has_handle (init folder filename timeout retry_delay)"
    by (simp add: held_has_handle_def init_def)
  have c: "held_has_handle self'" if "held_has_handle self" "enter self w = Some (r, self', w')"
    for r self' w'
    using that acquire_held_has_handle[of self w r self' w']
    by (auto simp: enter_def split: if_splits)
  have d: "held_has_handle (fst (snd (exit self w)))" if "held_has_handle self"
    using that release_held_has_handle[of self w] by (simp add: exit_def)
  have e: "handle_iff_held self'" if "handle_iff_held self" "enter self w = Some (r, self', w')"
    for r self' w'
    using that acquire_handle_iff_held[of self w r self' w']
    by (auto simp: enter_def split: if_splits)
  from a b c d e acquire_held_has_handle acquire_handle_iff_held release_held_has_handle
  show ?thesis by blast
qed

theorem held_has_handle_invariant_witness:
  "held_has_handle ex_lock \<and> handle_iff_held ex_lock
   \<and> acquire ex_lock ex_world = Some (Inr (), held_lock, held_world)
   \<and> enter ex_lock ex_world = Some (Inr (), held_lock, held_world)
   \<and> held_has_handle held_lock \<and> handle_iff_held held_lock
   \<and> held_has_handle (fst (snd (release held_lock held_world)))
   \<and> held_has_handle (fst (snd (exit held_lock held_world)))"
proof -
  have h: "held_has_handle ex_lock" "handle_iff_held ex_lock"
    by (simp_all add: held_has_handle_def handle_iff_held_def ex_lock_def init_def)
  note run = acquire_ex
  have run': "enter ex_lock ex_world = Some (Inr (), held_lock, held_world)"
    using run by (simp add: enter_def ex_lock_def init_def)
  have k: "held_has_handle held_lock" "handle_iff_held held_lock"
    using held_has_handle_invariant[of "''/tmp/locks''" "''job-42''" 1 "1 / 2" ex_lock ex_world] h run
    by blast+
  from held_has_handle_invariant[of "''/tmp/locks''" "''job-42''" 1 "1 / 2" held_lock held_world] k
  have "held_has_handle (fst (snd (release held_lock held_world)))"
    "held_has_handle (fst (snd (exit held_lock held_world)))" by blast+
  with h run run' k show ?thesis by simp
qed

subsection \<open>Acquire, release, acquire again\<close>

text \<open>
  Claim C7. After an \<^verbatim>\<open>acquire()\<close> that returned, \<^verbatim>\<open>release()\<close> returns normally and the lock
  path is no longer among the existing files; the next \<^verbatim>\<open>acquire()\<close> of the same instance
  then returns after a single \<^verbatim>\<open>os.open\<close> and no sleep, as its trace shows.
\<close>

theorem round_trip:
  assumes "acquire self w = Some (Inr (), self1, w1)"
  shows "\<exists>w2 d. release self1 w1 = (Inr (), self1\<lparr>is_locked := False\<rparr>, w2)
           \<and> lockfile self \<notin> files w2
           \<and> acquire (self1\<lparr>is_locked := False\<rparr>) w2 =
               Some (Inr (), self1\<lparr>fd := Some d\<rparr>,
                     w2\<lparr>now := now w2 + took w2, trace := trace w2 @ [EvOpen (lockfile self)],
                        files := insert (lockfile self) (files w2), fds := d # fds w2\<rparr>)"
proof -
  from release_after_acquire[OF assms] obtain c where
    rel: "release self1 w1 =
             (Inr (), self1\<lparr>is_locked := False\<rparr>,
              w1\<lparr>now := now w1 + took w1 + of_nat (lag w1 (Suc (length (trace w1)))) / 1000000,
                 trace := trace w1 @ [EvClose c, EvUnlink (lockfile self)],
                 fds := removeAll c (fds w1), files := files w1 - {lockfile self}\<rparr>)"
    by blast
  define w2 where "w2 = w1\<lparr>now := now w1 + took w1 + of_nat (lag w1 (Suc (length (trace w1)))) / 1000000,
                 trace := trace w1 @ [EvClose c, EvUnlink (lockfile self)],
                 fds := removeAll c (fds w1), files := files w1 - {lockfile self}\<rparr>"
  from acquire_returns[OF assms] have lf: "lockfile self1 = lockfile self"
    and il: "is_locked self1"
    and oe: "map_of (open_err w1) (lockfile self) = None" by auto
  have gone: "lockfile self \<notin> files w2" by (simp add: w2_def)
  have free: "map_of (open_err w2) (lockfile (self1\<lparr>is_locked := False\<rparr>)) = None"
    "lockfile (self1\<lparr>is_locked := False\<rparr>) \<notin> files w2"
    using oe lf by (simp_all add: w2_def)
  from acquire_free[OF free] lf il
  have "acquire (self1\<lparr>is_locked := False\<rparr>) w2 =
               Some (Inr (), self1\<lparr>fd := Some (alloc_fd (fds w2))\<rparr>,
                     w2\<lparr>now := now w2 + took w2, trace := trace w2 @ [EvOpen (lockfile self)],
                        files := insert (lockfile self) (files w2),
                        fds := alloc_fd (fds w2) # fds w2\<rparr>)"
    by simp
  with rel gone show ?thesis unfolding w2_def by blast
qed

theorem round_trip_witness:
  "acquire ex_lock ex_world = Some (Inr (), held_lock, held_world)
   \<and> (\<exists>w2 d. release held_lock held_world = (Inr (), held_lock\<lparr>is_locked := False\<rparr>, w2)
           \<and> lockfile ex_lock \<notin> files w2
           \<and> acquire (held_lock\<lparr>is_locked := False\<rparr>) w2 =
               Some (Inr (), held_lock\<lparr>fd := Some d\<rparr>,
                     w2\<lparr>now := now w2 + took w2, trace := trace w2 @ [EvOpen (lockfile ex_lock)],
                        files := insert (lockfile ex_lock) (files w2), fds := d # fds w2\<rparr>))"
proof -
  note run = acquire_ex
  show ?thesis using run round_trip[OF run] by (rule conjI)
qed

subsection \<open>Scope entry and scope exit\<close>

text \<open>
  Claim C8. Scope entry on an instance that holds the lock changes nothing; otherwise it is
  \<^verbatim>\<open>acquire\<close>, and when it returns the held flag is true. Scope exit on an instance that does
  not hold the lock changes nothing; otherwise it is \<^verbatim>\<open>release\<close>, and after an entry that
  acquired the lock it returns normally with the flag false and the lock file gone.
\<close>

theorem scoped_acquisition:
  "(is_locked self \<longrightarrow> enter self w = Some (Inr (), self, w))
   \<and> (\<not> is_locked self \<longrightarrow> enter self w = acquire self w)
   \<and> (\<forall>s' w'. enter self w = Some (Inr (), s', w') \<longrightarrow> is_locked s')
   \<and> (\<not> is_locked self \<longrightarrow> exit self w = (Inr (), self, w))
   \<and> (is_locked self \<longrightarrow> exit self w = release self w)
   \<and> (\<forall>s' w'. \<not> is_locked self \<and> enter self w = Some (Inr (), s', w') \<longrightarrow>
         (\<exists>w''. exit s' w' = (Inr (), s'\<lparr>is_locked := False\<rparr>, w'') \<and> lockfile self \<notin> files w''))"
proof -
  have held: "is_locked s'" if "enter self w = Some (Inr (), s', w')" for s' w'
  proof (cases "is_locked self")
    case True
    with that show ?thesis by (simp add: enter_def)
  next
    case False
    with that have "acquire self w = Some (Inr (), s', w')" by (simp add: enter_def)
    from acquire_returns(3)[OF this] show ?thesis by auto
  qed
  have rel: "\<exists>w''. exit s' w' = (Inr (), s'\<lparr>is_locked := False\<rparr>, w'') \<and> lockfile self \<notin> files w''"
    if "\<not> is_locked self" "enter self w = Some (Inr (), s', w')" for s' w'
  proof -
    from that have acq: "acquire self w = Some (Inr (), s', w')" by (simp add: enter_def)
    from release_after_acquire[OF acq] held[OF that(2)] show ?thesis
      by (auto simp: exit_def)
  qed
  have a: "is_locked self \<longrightarrow> enter self w = Some (Inr (), self, w)"
    and b: "\<not> is_locked self \<longrightarrow> enter self w = acquire self w"
    by (simp_all add: enter_def)
  have c: "\<not> is_locked self \<longrightarrow> exit self w = (Inr (), self, w)"
    and d: "is_locked self \<longrightarrow> exit self w = release self w"
    by (simp_all add: exit_def)
  from a b c d held rel show ?thesis by blast
qed

theorem scoped_acquisition_witness:
  "\<not> is_locked ex_lock \<and> is_locked held_lock
   \<and> enter ex_lock ex_world = Some (Inr (), held_lock, held_world)
   \<and> enter held_lock held_world = Some (Inr (), held_lock, held_world)
   \<and> exit ex_lock ex_world = (Inr (), ex_lock, ex_world)
   \<and> exit held_lock held_world = release held_lock held_world
   \<and> (\<exists>w''. exit held_lock held_world = (Inr (), held_lock\<lparr>is_locked := False\<rparr>, w'')
          \<and> lockfile ex_lock \<notin> files w'')"
proof -
  have n: "\<not> is_locked ex_lock" by (simp add: ex_lock_def init_def)
  have h: "is_locked held_lock" by (simp add: held_lock_def)
  note run = acquire_ex
  from scoped_acquisition[of ex_lock ex_world] n run
  have e: "enter ex_lock ex_world = Some (Inr (), held_lock, held_world)"
    and x: "exit ex_lock ex_world = (Inr (), ex_lock, ex_world)" by simp_all
  from scoped_acquisition[of ex_lock ex_world] n e
  have r: "\<exists>w''. exit held_lock held_world = (Inr (), held_lock\<lparr>is_locked := False\<rparr>, w'')
          \<and> lockfile ex_lock \<notin> files w''" by blast
  from scoped_acquisition[of held_lock held_world] h
  have "enter held_lock held_world = Some (Inr (), held_lock, held_world)"
    "exit held_lock held_world = release held_lock held_world" by simp_all
  with n h e x r show ?thesis by simp
qed

subsection \<open>Which failures are retried\<close>



subsection \<open>Acquire on an instance that already holds the lock\<close>

text \<open>
  Claim C1, at an input where it fails: on the instance that holds the lock, a second
  \<^verbatim>\<open>acquire()\<close> makes three more exclusive-create attempts and raises the timeout error.
\<close>

theorem acquire_held_counterexample:
  "is_locked held_lock
   \<and> acquire held_lock held_world =
       Some (Inl (FileLockException (timeout_message ''/tmp/locks/job-42.lock'')), held_lock,
             held_world\<lparr>now := 1,
               trace := [EvOpen ''/tmp/locks/job-42.lock'',
                         EvOpen ''/tmp/locks/job-42.lock'', EvSleep (1 / 2),
                         EvOpen ''/tmp/locks/job-42.lock'', EvSleep (1 / 2),
                         EvOpen ''/tmp/locks/job-42.lock'']\<rparr>)"
  using acquire_held_again by (simp add: held_lock_def)

text \<open>
  Claim C1, amended. \<^verbatim>\<open>acquire()\<close> does not test the held flag. On an instance that holds
  the lock, with its lock file in place and a positive retry delay, it attempts the
  exclusive creation again and ends by raising the timeout error, the held flag and the
  handle unchanged. The call that does nothing on an instance that holds the lock is the
  scope entry.
\<close>

theorem acquire_when_held:
  assumes "is_locked self" "lockfile self \<in> files w"
    "map_of (open_err w) (lockfile self) = None" "0 < retry_delay_sec self"
  shows "(\<exists>t tr. acquire self w =
            Some (Inl (FileLockException (timeout_message (lockfile self))), self,
                  w\<lparr>now := t, trace := trace w @ EvOpen (lockfile self) # tr\<rparr>))
         \<and> enter self w = Some (Inr (), self, w)"
proof -
  have f: "fst (os_open w (lockfile self)) = Inl EEXIST"
    using assms(2,3) by (simp add: os_open_def Let_def)
  from timeout_reached[OF assms(4), of w "timeout_sec self"] obtain n where
    b: "\<forall>k<n. elapsed_at w (retry_delay_sec self) k < timeout_sec self"
    and t: "timeout_sec self \<le> elapsed_at w (retry_delay_sec self) n" by blast
  have d: "0 \<le> retry_delay_sec self" using assms(4) by simp
  have e: "EEXIST \<in> {EEXIST, EACCES}" by simp
  note n = acquire_contended[OF f e d b t]
  have "\<exists>tr. concat (replicate n [EvOpen (lockfile self), EvSleep (retry_delay_sec self)]) @
                     [EvOpen (lockfile self)] = EvOpen (lockfile self) # tr"
    by (cases n) simp_all
  then obtain tr where "concat (replicate n [EvOpen (lockfile self), EvSleep (retry_delay_sec self)]) @
                     [EvOpen (lockfile self)] = EvOpen (lockfile self) # tr" ..
  with n have "acquire self w =
            Some (Inl (FileLockException (timeout_message (lockfile self))), self,
                  w\<lparr>now := now w + elapsed_at w (retry_delay_sec self) n,
                    trace := trace w @ EvOpen (lockfile self) # tr\<rparr>)" by simp
  then have "\<exists>t tr. acquire self w =
            Some (Inl (FileLockException (timeout_message (lockfile self))), self,
                  w\<lparr>now := t, trace := trace w @ EvOpen (lockfile self) # tr\<rparr>)" by blast
  moreover have "enter self w = Some (Inr (), self, w)" using assms(1) by (simp add: enter_def)
  ultimately show ?thesis by (rule conjI)
qed

theorem acquire_when_held_witness:
  "is_locked held_lock \<and> lockfile held_lock \<in> files held_world
   \<and> map_of (open_err held_world) (lockfile held_lock) = None \<and> 0 < retry_delay_sec held_lock
   \<and> (\<exists>t tr. acquire held_lock held_world =
            Some (Inl (FileLockException (timeout_message (lockfile held_lock))), held_lock,
                  held_world\<lparr>now := t, trace := trace held_world @ EvOpen (lockfile held_lock) # tr\<rparr>))
   \<and> enter held_lock held_world = Some (Inr (), held_lock, held_world)"
proof -
  have h: "is_locked held_lock" "lockfile held_lock \<in> files held_world"
    "map_of (open_err held_world) (lockfile held_lock) = None" "0 < retry_delay_sec held_lock"
    by (simp_all add: held_lock_def held_world_def ex_lock_def init_def path_join_def)
  from acquire_when_held[OF h] h show ?thesis by blast
qed

subsection \<open>The timeout under persistent contention\<close>

text \<open>
  Claim C4, at an input where it fails: with a negative retry delay and the lock held by
  another process, \<^verbatim>\<open>acquire()\<close> makes one attempt and raises \<^verbatim>\<open>ValueError\<close> from
  \<^verbatim>\<open>time.sleep\<close>; it neither sleeps and retries nor raises the timeout error.
\<close>

theorem acquire_times_out_counterexample:
  "fst (os_open busy_world (lockfile neg_lock)) = Inl EEXIST
   \<and> acquire neg_lock busy_world =
       Some (Inl ValueError, neg_lock, busy_world\<lparr>trace := [EvOpen ''/tmp/locks/job-42.lock'']\<rparr>)"
proof -
  have l: "lockfile neg_lock = ''/tmp/locks/job-42.lock''" "retry_delay_sec neg_lock = - 1"
    "timeout_sec neg_lock = 1"
    by (simp_all add: neg_lock_def init_def path_join_def)
  have f: "fst (os_open busy_world (lockfile neg_lock)) = Inl EEXIST"
    by (simp add: os_open_def l busy_world_def)
  have "acquire neg_lock busy_world = acquire_loop 0 neg_lock busy_world"
    by (simp add: acquire_def time_time_def busy_world_def)
  also have "\<dots> = Some (Inl ValueError, neg_lock,
                      busy_world\<lparr>trace := [EvOpen ''/tmp/locks/job-42.lock'']\<rparr>)"
    by (simp add: acquire_loop_fail[OF f] l) (simp add: busy_world_def took_def)
  finally show ?thesis using f by simp
qed

text \<open>
  Claim C4, amended. The world is changed by this process only, so an exclusive creation
  that fails with \<open>EEXIST\<close> fails so at every attempt. Under that contention and with a
  retry delay that is not negative, \<^verbatim>\<open>acquire()\<close> raises \<^verbatim>\<open>FileLockException\<close>, with the
  message that quotes the lock path, at the first failed attempt after which the time
  elapsed on the wall clock since the start has reached the timeout: after each earlier
  attempt the elapsed time was below the timeout and the call slept the retry delay once
  and tried again, as the trace shows; the instance is unchanged. With a positive retry
  delay there is such an attempt, so the call does end in that way. With a negative retry
  delay and the elapsed time below the timeout after the first attempt, \<^verbatim>\<open>time.sleep\<close>
  raises \<^verbatim>\<open>ValueError\<close> and \<^verbatim>\<open>acquire()\<close> passes it on.
\<close>

theorem acquire_times_out:
  assumes "fst (os_open w (lockfile self)) = Inl EEXIST"
  shows "(0 \<le> retry_delay_sec self
            \<and> (\<forall>k<n. elapsed_at w (retry_delay_sec self) k < timeout_sec self)
            \<and> timeout_sec self \<le> elapsed_at w (retry_delay_sec self) n \<longrightarrow>
          acquire self w =
            Some (Inl (FileLockException
                        (''Timeout occurred for lockfile '' @ [CHR 0x27] @ lockfile self @ [CHR 0x27])),
                  self,
                  w\<lparr>now := now w + elapsed_at w (retry_delay_sec self) n,
                    trace := trace w @
                      concat (replicate n [EvOpen (lockfile self), EvSleep (retry_delay_sec self)]) @
                      [EvOpen (lockfile self)]\<rparr>))
       \<and> (0 < retry_delay_sec self \<longrightarrow>
            (\<exists>m. (\<forall>k<m. elapsed_at w (retry_delay_sec self) k < timeout_sec self)
               \<and> timeout_sec self \<le> elapsed_at w (retry_delay_sec self) m
               \<and> acquire self w =
                   Some (Inl (FileLockException
                               (''Timeout occurred for lockfile '' @ [CHR 0x27] @ lockfile self @ [CHR 0x27])),
                         self,
                         w\<lparr>now := now w + elapsed_at w (retry_delay_sec self) m,
                           trace := trace w @
                             concat (replicate m [EvOpen (lockfile self), EvSleep (retry_delay_sec self)]) @
                             [EvOpen (lockfile self)]\<rparr>)))
       \<and> (retry_delay_sec self < 0 \<and> elapsed_at w (retry_delay_sec self) 0 < timeout_sec self \<longrightarrow>
            acquire self w =
              Some (Inl ValueError, self,
                    w\<lparr>now := now w + elapsed_at w (retry_delay_sec self) 0,
                      trace := trace w @ [EvOpen (lockfile self)]\<rparr>))"
proof -
  have e: "EEXIST \<in> {EEXIST, EACCES}" by simp
  have run: "acquire self w =
            Some (Inl (FileLockException
                        (''Timeout occurred for lockfile '' @ [CHR 0x27] @ lockfile self @ [CHR 0x27])),
                  self,
                  w\<lparr>now := now w + elapsed_at w (retry_delay_sec self) i,
                    trace := trace w @
                      concat (replicate i [EvOpen (lockfile self), EvSleep (retry_delay_sec self)]) @
                      [EvOpen (lockfile self)]\<rparr>)"
    if "0 \<le> retry_delay_sec self"
      "\<forall>k<i. elapsed_at w (retry_delay_sec self) k < timeout_sec self"
      "timeout_sec self \<le> elapsed_at w (retry_delay_sec self) i" for i
    using acquire_contended[OF assms e that] by (simp add: timeout_message_def)
  have pos: "\<exists>m. (\<forall>k<m. elapsed_at w (retry_delay_sec self) k < timeout_sec self)
               \<and> timeout_sec self \<le> elapsed_at w (retry_delay_sec self) m
               \<and> acquire self w =
                   Some (Inl (FileLockException
                               (''Timeout occurred for lockfile '' @ [CHR 0x27] @ lockfile self @ [CHR 0x27])),
                         self,
                         w\<lparr>now := now w + elapsed_at w (retry_delay_sec self) m,
                           trace := trace w @
                             concat (replicate m [EvOpen (lockfile self), EvSleep (retry_delay_sec self)]) @
                             [EvOpen (lockfile self)]\<rparr>)"
    if d: "0 < retry_delay_sec self"
  proof -
    from timeout_reached[OF d, of w "timeout_sec self"] obtain m where
      b: "\<forall>k<m. elapsed_at w (retry_delay_sec self) k < timeout_sec self"
      and t: "timeout_sec self \<le> elapsed_at w (retry_delay_sec self) m" by blast
    from d have "0 \<le> retry_delay_sec self" by simp
    from run[OF this b t] b t show ?thesis by blast
  qed
  have neg: "acquire self w =
              Some (Inl ValueError, self,
                    w\<lparr>now := now w + elapsed_at w (retry_delay_sec self) 0,
                      trace := trace w @ [EvOpen (lockfile self)]\<rparr>)"
    if "retry_delay_sec self < 0" "elapsed_at w (retry_delay_sec self) 0 < timeout_sec self"
  proof -
    have "acquire self w = acquire_loop (now w) self w" by (simp add: acquire_def time_time_def)
    with that show ?thesis by (simp add: acquire_loop_fail[OF assms] elapsed_at_0)
  qed
  from run pos neg show ?thesis by blast
qed

theorem acquire_times_out_witness:
  "fst (os_open slow_world (lockfile ex_lock)) = Inl EEXIST
   \<and> 0 < retry_delay_sec ex_lock
   \<and> elapsed_at slow_world (retry_delay_sec ex_lock) 0 < timeout_sec ex_lock
   \<and> timeout_sec ex_lock \<le> elapsed_at slow_world (retry_delay_sec ex_lock) 1
   \<and> acquire ex_lock slow_world =
       Some (Inl (FileLockException (''Timeout occurred for lockfile '' @ [CHR 0x27] @ ''/tmp/locks/job-42.lock'' @ [CHR 0x27])),
             ex_lock,
             slow_world\<lparr>now := 7 / 5,
               trace := [EvOpen ''/tmp/locks/job-42.lock'', EvSleep (1 / 2),
                         EvOpen ''/tmp/locks/job-42.lock'']\<rparr>)
   \<and> fst (os_open busy_world (lockfile neg_lock)) = Inl EEXIST
   \<and> retry_delay_sec neg_lock < 0
   \<and> elapsed_at busy_world (retry_delay_sec neg_lock) 0 < timeout_sec neg_lock
   \<and> acquire neg_lock busy_world =
       Some (Inl ValueError, neg_lock,
             busy_world\<lparr>now := now busy_world + elapsed_at busy_world (retry_delay_sec neg_lock) 0,
               trace := trace busy_world @ [EvOpen (lockfile neg_lock)]\<rparr>)"
proof -
  have l: "lockfile ex_lock = ''/tmp/locks/job-42.lock''" "retry_delay_sec ex_lock = 1 / 2"
    "timeout_sec ex_lock = 1"
    by (simp_all add: ex_lock_def init_def path_join_def)
  have m: "lockfile neg_lock = ''/tmp/locks/job-42.lock''" "retry_delay_sec neg_lock = - 1"
    "timeout_sec neg_lock = 1"
    by (simp_all add: neg_lock_def init_def path_join_def)
  have f: "fst (os_open slow_world (lockfile ex_lock)) = Inl EEXIST"
    by (simp add: os_open_def l slow_world_def busy_world_def)
  have g: "fst (os_open busy_world (lockfile neg_lock)) = Inl EEXIST"
    by (simp add: os_open_def m busy_world_def)
  have e0: "elapsed_at slow_world (1 / 2) 0 = 3 / 10"
    and e1: "elapsed_at slow_world (1 / 2) (Suc 0) = 7 / 5"
    by (simp_all add: elapsed_at_def slow_world_def)
  have n0: "elapsed_at busy_world (- 1) 0 = 0"
    by (simp add: elapsed_at_def busy_world_def)
  have a: "acquire ex_lock slow_world =
       Some (Inl (FileLockException (''Timeout occurred for lockfile '' @ [CHR 0x27] @ ''/tmp/locks/job-42.lock'' @ [CHR 0x27])),
             ex_lock,
             slow_world\<lparr>now := 7 / 5,
               trace := [EvOpen ''/tmp/locks/job-42.lock'', EvSleep (1 / 2),
                         EvOpen ''/tmp/locks/job-42.lock'']\<rparr>)"
  proof -
    have h: "0 \<le> retry_delay_sec ex_lock
            \<and> (\<forall>k<1. elapsed_at slow_world (retry_delay_sec ex_lock) k < timeout_sec ex_lock)
            \<and> timeout_sec ex_lock \<le> elapsed_at slow_world (retry_delay_sec ex_lock) 1"
      by (simp add: e0 e1 l)
    from acquire_times_out[OF f, of 1] h
    have "acquire ex_lock slow_world =
            Some (Inl (FileLockException
                        (''Timeout occurred for lockfile '' @ [CHR 0x27] @ lockfile ex_lock @ [CHR 0x27])),
                  ex_lock,
                  slow_world\<lparr>now := now slow_world + elapsed_at slow_world (retry_delay_sec ex_lock) 1,
                    trace := trace slow_world @
                      concat (replicate 1 [EvOpen (lockfile ex_lock), EvSleep (retry_delay_sec ex_lock)]) @
                      [EvOpen (lockfile ex_lock)]\<rparr>)"
      by blast
    also have "slow_world\<lparr>now := now slow_world + elapsed_at slow_world (retry_delay_sec ex_lock) 1,
                    trace := trace slow_world @
                      concat (replicate 1 [EvOpen (lockfile ex_lock), EvSleep (retry_delay_sec ex_lock)]) @
                      [EvOpen (lockfile ex_lock)]\<rparr> =
               slow_world\<lparr>now := 7 / 5,
                 trace := [EvOpen ''/tmp/locks/job-42.lock'', EvSleep (1 / 2),
                           EvOpen ''/tmp/locks/job-42.lock'']\<rparr>"
      by (simp add: l e1) (simp add: slow_world_def busy_world_def)
    finally show ?thesis by (simp add: l)
  qed
  have b: "acquire neg_lock busy_world =
       Some (Inl ValueError, neg_lock,
             busy_world\<lparr>now := now busy_world + elapsed_at busy_world (retry_delay_sec neg_lock) 0,
               trace := trace busy_world @ [EvOpen (lockfile neg_lock)]\<rparr>)"
  proof -
    have h: "retry_delay_sec neg_lock < 0
             \<and> elapsed_at busy_world (retry_delay_sec neg_lock) 0 < timeout_sec neg_lock"
      by (simp add: m n0)
    from acquire_times_out[OF g, of 0] h show ?thesis by blast
  qed
  have c: "0 < retry_delay_sec ex_lock"
    "elapsed_at slow_world (retry_delay_sec ex_lock) 0 < timeout_sec ex_lock"
    "timeout_sec ex_lock \<le> elapsed_at slow_world (retry_delay_sec ex_lock) 1"
    "retry_delay_sec neg_lock < 0"
    "elapsed_at busy_world (retry_delay_sec neg_lock) 0 < timeout_sec neg_lock"
    by (simp_all add: l m e0 e1 n0)
  from f g a b c show ?thesis by blast
qed

subsection \<open>Mutual exclusion\<close>



end
